theory Spec2Isabelle
  imports Main "HOL-Library.Word"
begin

section \<open>The world outside the module\<close>

text \<open>
  \<^verbatim>\<open>modules.py\<close> talks to three things it does not implement: the file system
  (\<^verbatim>\<open>Path.rglob\<close>, \<^verbatim>\<open>open\<close>), the MD5 digest of \<^verbatim>\<open>hashlib\<close> and an SQLite
  connection. The file system is a record of what a walk yields and what opening a
  path gives; it does not change during one pass. The digest function is a parameter
  \<open>md5\<close> of every function that hashes; only the hexadecimal rendering of the digest
  is fixed here. Exceptions are values of \<open>error\<close>.
\<close>

type_synonym byte = "8 word"
type_synonym path = string

datatype error =
    FileNotFoundError
  | IsADirectoryError
  | PermissionError
  | OperationalError
  | IndexError
  | ValueError

datatype node = RegularFile "byte list" | Directory | NoAccess

record filesystem =
  rglob :: "path \<Rightarrow> path list"
  lookup :: "path \<Rightarrow> node option"

text \<open>\<^verbatim>\<open>open(imgPath, "rb")\<close> followed by \<^verbatim>\<open>f.read()\<close>.\<close>

definition open_rb :: "filesystem \<Rightarrow> path \<Rightarrow> error + byte list" where
  "open_rb fs p =
     (case lookup fs p of
        None \<Rightarrow> Inl FileNotFoundError
      | Some Directory \<Rightarrow> Inl IsADirectoryError
      | Some NoAccess \<Rightarrow> Inl PermissionError
      | Some (RegularFile imgData) \<Rightarrow> Inr imgData)"

text \<open>\<^verbatim>\<open>hexdigest()\<close>: two lower-case hexadecimal digits per digest byte.\<close>

definition hex_digit :: "nat \<Rightarrow> char" where
  "hex_digit n = ''0123456789abcdef'' ! (n mod 16)"

definition hexdigest :: "byte list \<Rightarrow> string" where
  "hexdigest d = concat (map (\<lambda>b. [hex_digit (unat b div 16), hex_digit (unat b mod 16)]) d)"

section \<open>Hasher, classifier stub and image test\<close>

definition genHash :: "(byte list \<Rightarrow> byte list) \<Rightarrow> filesystem \<Rightarrow> path \<Rightarrow> error + string" where
  "genHash md5 fs imgPath =
     (case open_rb fs imgPath of
        Inl e \<Rightarrow> Inl e
      | Inr imgData \<Rightarrow> Inr (hexdigest (md5 imgData)))"

definition classifyImg :: "path \<Rightarrow> string" where
  "classifyImg imgPath = ''thing''"

text \<open>
  \<^verbatim>\<open>os.path.splitext\<close> of the POSIX flavour (separator \<open>/\<close>, extension separator
  \<open>.\<close>): the extension starts at the last dot, provided that dot comes after the
  last separator and some character between the two is not a dot.
\<close>

fun rfind :: "string \<Rightarrow> char \<Rightarrow> int" where
  "rfind [] c = - 1"
| "rfind (x # xs) c =
     (let r = rfind xs c in if 0 \<le> r then r + 1 else if x = c then 0 else - 1)"

function splitext_scan :: "string \<Rightarrow> int \<Rightarrow> int \<Rightarrow> string \<times> string" where
  "splitext_scan p filenameIndex dotIndex =
     (if filenameIndex < dotIndex then
        (if take 1 (drop (nat filenameIndex) p) \<noteq> ''.''
         then (take (nat dotIndex) p, drop (nat dotIndex) p)
         else splitext_scan p (filenameIndex + 1) dotIndex)
      else (p, []))"
  by pat_completeness auto
termination
  by (relation "measure (\<lambda>(p, filenameIndex, dotIndex). nat (dotIndex - filenameIndex))") auto

declare splitext_scan.simps [simp del]

definition splitext :: "string \<Rightarrow> string \<times> string" where
  "splitext p =
     (let sepIndex = rfind p CHR ''/'';
          dotIndex = rfind p CHR ''.''
      in if dotIndex > sepIndex then splitext_scan p (sepIndex + 1) dotIndex else (p, []))"

text \<open>
  \<^verbatim>\<open>str.lower\<close> on the ASCII letters. The six extensions are ASCII, and an extension
  holding a non-ASCII character does not lower-case to one of them, so this decides
  the membership test as Python does.
\<close>

definition lower_char :: "char \<Rightarrow> char" where
  "lower_char c =
     (case map_of (zip ''ABCDEFGHIJKLMNOPQRSTUVWXYZ'' ''abcdefghijklmnopqrstuvwxyz'') c of
        None \<Rightarrow> c
      | Some l \<Rightarrow> l)"

definition lower :: "string \<Rightarrow> string" where
  "lower s = map lower_char s"

definition imgExts :: "string list" where
  "imgExts = [''.jpg'', ''.jpeg'', ''.png'', ''.webp'', ''.bmp'', ''.avif'']"

definition isImg :: "path \<Rightarrow> bool" where
  "isImg filePath = (let fileExtension = snd (splitext filePath) in lower fileExtension \<in> set imgExts)"

section \<open>Scanner\<close>

text \<open>
  A generator is the list of the values it has still to yield; consuming a value
  leaves the tail. \<^verbatim>\<open>imgPaths\<close> is the state of a fresh generator.
\<close>

definition imgPaths :: "filesystem \<Rightarrow> path \<Rightarrow> path list" where
  "imgPaths fs startPath = filter isImg (rglob fs startPath)"

section \<open>Store\<close>

text \<open>
  The connection is the content of table \<^verbatim>\<open>media(hash TEXT PRIMARY KEY, imageClass TEXT)\<close>:
  its rows \<open>(hash, imageClass)\<close> in rowid order, which is the order a full scan returns
  them in. \<^verbatim>\<open>cursor.execute\<close> receives the query as text. What SQLite does with that
  text is written out for the statement shapes the module issues: a string
  constant runs from a quote to the next quote that is not doubled (a doubled quote
  stands for one quote character), the condition of the membership query is a
  disjunction of equalities between the column \<^verbatim>\<open>hash\<close> and string constants, and
  text that does not parse raises \<^verbatim>\<open>sqlite3.OperationalError\<close>. This is a fragment of
  SQL: it reads the queries the module builds from quote-free values exactly as SQLite
  does, and it reads the two queries of the last section as SQLite does; other text
  that SQLite would accept is answered with \<open>OperationalError\<close> here, and no
  statement below rests on such text. A database without the table and one with the
  empty table are both the empty list of rows: \<^verbatim>\<open>createTable\<close> makes the first into the
  second. What the connection sees and what the database file holds differ until the
  commit; the section on one run, below, says where the commit happens.
\<close>

definition sq :: char where
  "sq = CHR 0x27"

datatype sqlval = Integer int | Text string

type_synonym row = "sqlval list"
type_synonym conn = "(string \<times> string) list"

fun strip_prefix :: "string \<Rightarrow> string \<Rightarrow> string option" where
  "strip_prefix [] s = Some s"
| "strip_prefix (p # ps) [] = None"
| "strip_prefix (p # ps) (c # cs) = (if p = c then strip_prefix ps cs else None)"

text \<open>The body of a string constant, after its opening quote: the value and the rest.\<close>

fun sql_string_body :: "string \<Rightarrow> (string \<times> string) option" where
  "sql_string_body [] = None"
| "sql_string_body [c] = (if c = sq then Some ([], []) else None)"
| "sql_string_body (c # d # ds) =
     (if c = sq then
        (if d = sq then map_option (apfst ((#) sq)) (sql_string_body ds)
         else Some ([], d # ds))
      else map_option (apfst ((#) c)) (sql_string_body (d # ds)))"

datatype operand = Column_hash | Literal string

definition parse_operand :: "string \<Rightarrow> (operand \<times> string) option" where
  "parse_operand s =
     (case strip_prefix ''hash'' s of
        Some rest \<Rightarrow> Some (Column_hash, rest)
      | None \<Rightarrow>
          (case s of
             [] \<Rightarrow> None
           | c # cs \<Rightarrow> if c = sq then map_option (apfst Literal) (sql_string_body cs) else None))"

definition parse_equality :: "string \<Rightarrow> ((operand \<times> operand) \<times> string) option" where
  "parse_equality s =
     (case parse_operand s of
        None \<Rightarrow> None
      | Some (a, s1) \<Rightarrow>
          (case strip_prefix ''='' s1 of
             None \<Rightarrow> None
           | Some s2 \<Rightarrow>
               (case parse_operand s2 of
                  None \<Rightarrow> None
                | Some (b, s3) \<Rightarrow> Some ((a, b), s3))))"

fun parse_condition :: "nat \<Rightarrow> string \<Rightarrow> ((operand \<times> operand) list \<times> string) option" where
  "parse_condition 0 s = None"
| "parse_condition (Suc n) s =
     (case parse_equality s of
        None \<Rightarrow> None
      | Some (e, s1) \<Rightarrow>
          (case strip_prefix '' OR '' s1 of
             None \<Rightarrow> Some ([e], s1)
           | Some s2 \<Rightarrow> map_option (apfst ((#) e)) (parse_condition n s2)))"

fun operand_value :: "string \<times> string \<Rightarrow> operand \<Rightarrow> string" where
  "operand_value r Column_hash = fst r"
| "operand_value r (Literal s) = s"

definition condition_holds :: "(operand \<times> operand) list \<Rightarrow> string \<times> string \<Rightarrow> bool" where
  "condition_holds es r = list_ex (\<lambda>(a, b). operand_value r a = operand_value r b) es"

definition execute_exists :: "conn \<Rightarrow> string \<Rightarrow> error + row list \<times> conn" where
  "execute_exists conn rest =
     (case parse_condition (Suc (length rest)) rest of
        None \<Rightarrow> Inl OperationalError
      | Some (es, rest') \<Rightarrow>
          if rest' = '')''
          then Inr ([[Integer (if list_ex (condition_holds es) conn then 1 else 0)]], conn)
          else Inl OperationalError)"

text \<open>
  \<^verbatim>\<open>INSERT OR REPLACE\<close>: a row with the same primary key is deleted, and the new row
  gets the next rowid, so it comes last.
\<close>

definition execute_insert :: "conn \<Rightarrow> string \<Rightarrow> error + row list \<times> conn" where
  "execute_insert conn rest =
     (case rest of
        [] \<Rightarrow> Inl OperationalError
      | c # cs \<Rightarrow>
          if c \<noteq> sq then Inl OperationalError
          else
            (case sql_string_body cs of
               None \<Rightarrow> Inl OperationalError
             | Some (h, rest1) \<Rightarrow>
                 (case strip_prefix ('', '' @ [sq]) rest1 of
                    None \<Rightarrow> Inl OperationalError
                  | Some rest2 \<Rightarrow>
                      (case sql_string_body rest2 of
                         None \<Rightarrow> Inl OperationalError
                       | Some (l, rest3) \<Rightarrow>
                           if rest3 = '')''
                           then Inr ([], filter (\<lambda>r. fst r \<noteq> h) conn @ [(h, l)])
                           else Inl OperationalError))))"

definition executeQuery :: "conn \<Rightarrow> string \<Rightarrow> error + row list \<times> conn" where
  "executeQuery conn query =
     (case strip_prefix ''SELECT EXISTS(SELECT 1 FROM media WHERE '' query of
        Some rest \<Rightarrow> execute_exists conn rest
      | None \<Rightarrow>
          (case strip_prefix ''INSERT OR REPLACE INTO media(hash, imageClass) VALUES('' query of
             Some rest \<Rightarrow> execute_insert conn rest
           | None \<Rightarrow>
               (case strip_prefix ''SELECT imageClass, hash FROM '' query of
                  Some tableID \<Rightarrow>
                    if tableID = ''media''
                    then Inr (map (\<lambda>(h, l). [Text l, Text h]) conn, conn)
                    else Inl OperationalError
                | None \<Rightarrow>
                    (case strip_prefix ''CREATE TABLE IF NOT EXISTS '' query of
                       Some rest \<Rightarrow>
                         if rest = ''media (hash TEXT PRIMARY KEY, imageClass TEXT)''
                         then Inr ([], conn)
                         else Inl OperationalError
                     | None \<Rightarrow> Inl OperationalError))))"

definition hashExist :: "conn \<Rightarrow> string \<Rightarrow> error + bool" where
  "hashExist conn hashValue =
     (let query = ''SELECT EXISTS(SELECT 1 FROM media WHERE hash='' @ [sq] @ hashValue @ [sq] @ '')''
      in case executeQuery conn query of
           Inl e \<Rightarrow> Inl e
         | Inr (result, _) \<Rightarrow>
             (case result of
                (v # _) # _ \<Rightarrow> Inr (v = Integer 1)
              | _ \<Rightarrow> Inl IndexError))"

section \<open>Indexer\<close>

text \<open>
  The connection is mutated in place, so a pass that raises still leaves the rows it
  wrote before: the result is the connection together with the exception, if any.
\<close>

fun processImgs ::
  "(byte list \<Rightarrow> byte list) \<Rightarrow> filesystem \<Rightarrow> conn \<Rightarrow> path list \<Rightarrow> conn \<times> error option" where
  "processImgs md5 fs conn [] = (conn, None)"
| "processImgs md5 fs conn (file # files) =
     (if \<not> isImg file then processImgs md5 fs conn files
      else
        (case genHash md5 fs file of
           Inl e \<Rightarrow> (conn, Some e)
         | Inr imgHash \<Rightarrow>
             (case hashExist conn imgHash of
                Inl e \<Rightarrow> (conn, Some e)
              | Inr True \<Rightarrow> processImgs md5 fs conn files
              | Inr False \<Rightarrow>
                  (let imgClass = classifyImg file;
                       query = ''INSERT OR REPLACE INTO media(hash, imageClass) VALUES(''
                         @ [sq] @ imgHash @ [sq] @ '', '' @ [sq] @ imgClass @ [sq] @ '')''
                   in case executeQuery conn query of
                        Inl e \<Rightarrow> (conn, Some e)
                      | Inr (_, conn') \<Rightarrow> processImgs md5 fs conn' files))))"

section \<open>Reconciler\<close>

text \<open>
  \<^verbatim>\<open>detectFileWithHash\<close> draws from the generator it is handed and returns, beside
  its result, what the generator has left: the paths after the match, or nothing when
  the loop ran to the end.
\<close>

fun detectFileWithHash ::
  "(byte list \<Rightarrow> byte list) \<Rightarrow> filesystem \<Rightarrow> path list \<Rightarrow> string \<Rightarrow> (error + path option) \<times> path list" where
  "detectFileWithHash md5 fs [] targetHash = (Inr None, [])"
| "detectFileWithHash md5 fs (file # files) targetHash =
     (if \<not> isImg file then detectFileWithHash md5 fs files targetHash
      else
        (case genHash md5 fs file of
           Inl e \<Rightarrow> (Inl e, files)
         | Inr fileHash \<Rightarrow>
             if fileHash = targetHash then (Inr (Some file), files)
             else detectFileWithHash md5 fs files targetHash))"

type_synonym classDict = "string \<rightharpoonup> path list"

fun fileByClass_rows ::
  "(byte list \<Rightarrow> byte list) \<Rightarrow> filesystem \<Rightarrow> row list \<Rightarrow> path list \<Rightarrow> classDict \<Rightarrow> error + classDict" where
  "fileByClass_rows md5 fs [] files classDict = Inr classDict"
| "fileByClass_rows md5 fs (row # rows) files classDict =
     (case row of
        [Text imageClass, Text hashValue] \<Rightarrow>
          (let classDict1 =
                 (if classDict imageClass = None then classDict(imageClass \<mapsto> []) else classDict)
           in case detectFileWithHash md5 fs files hashValue of
                (Inl e, _) \<Rightarrow> Inl e
              | (Inr filePath, files') \<Rightarrow>
                  (case filePath of
                     None \<Rightarrow> fileByClass_rows md5 fs rows files' classDict1
                   | Some p \<Rightarrow>
                       if p = [] then fileByClass_rows md5 fs rows files' classDict1
                       else fileByClass_rows md5 fs rows files'
                              (classDict1(imageClass \<mapsto> the (classDict1 imageClass) @ [p]))))
      | _ \<Rightarrow> Inl ValueError)"

definition fileByClass ::
  "(byte list \<Rightarrow> byte list) \<Rightarrow> filesystem \<Rightarrow> conn \<Rightarrow> path list \<Rightarrow> string \<Rightarrow> error + classDict" where
  "fileByClass md5 fs conn files tableID =
     (case executeQuery conn (''SELECT imageClass, hash FROM '' @ tableID) of
        Inl e \<Rightarrow> Inl e
      | Inr (rows, _) \<Rightarrow> fileByClass_rows md5 fs rows files Map.empty)"

section \<open>One run, and what it commits\<close>

text \<open>
  The database is the rows the file \<^verbatim>\<open>.pictopy.db\<close> holds, that is, the committed ones.
  A connection starts from them. The \<^verbatim>\<open>sqlite3\<close> module opens a transaction before an
  \<^verbatim>\<open>INSERT\<close> and leaves it open; the module's only commit is the one in
  \<^verbatim>\<open>closeConnection\<close>, and \<^verbatim>\<open>classifyPath\<close> calls it as its last step, outside any
  \<^verbatim>\<open>try\<close>. So an exception that leaves \<^verbatim>\<open>classifyPath\<close> earlier leaves the transaction
  uncommitted: the rows the connection has written are rolled back, and the database
  keeps what it held when the connection was opened. \<open>classifyPath\<close> returns the result
  or the exception, together with the database after the run. The home directory is a
  parameter.
\<close>

type_synonym database = "(string \<times> string) list"

definition connectDB :: "database \<Rightarrow> conn" where
  "connectDB db = db"

definition closeConnection :: "conn \<Rightarrow> database" where
  "closeConnection conn = conn"

fun str_join :: "string \<Rightarrow> string list \<Rightarrow> string" where
  "str_join sep [] = []"
| "str_join sep [x] = x"
| "str_join sep (x # y # ys) = x @ sep @ str_join sep (y # ys)"

definition createTable :: "conn \<Rightarrow> string \<Rightarrow> string list \<Rightarrow> error + conn" where
  "createTable conn tableID columns =
     (let query = ''CREATE TABLE IF NOT EXISTS '' @ tableID @ '' ('' @ str_join '', '' columns @ '')''
      in case executeQuery conn query of
           Inl e \<Rightarrow> Inl e
         | Inr (_, conn') \<Rightarrow> Inr conn')"

definition classifyPath ::
  "(byte list \<Rightarrow> byte list) \<Rightarrow> filesystem \<Rightarrow> path \<Rightarrow> database \<Rightarrow> (error + classDict) \<times> database" where
  "classifyPath md5 fs home db =
     (let columns = [''hash TEXT PRIMARY KEY'', ''imageClass TEXT''];
          tableID = ''media''
      in case createTable (connectDB db) tableID columns of
           Inl e \<Rightarrow> (Inl e, db)
         | Inr conn \<Rightarrow>
             (case processImgs md5 fs conn (imgPaths fs home) of
                (conn1, Some e) \<Rightarrow> (Inl e, db)
              | (conn1, None) \<Rightarrow>
                  (case fileByClass md5 fs conn1 (imgPaths fs home) tableID of
                     Inl e \<Rightarrow> (Inl e, db)
                   | Inr result \<Rightarrow> (Inr result, closeConnection conn1))))"

section \<open>The spec's reading of the Scanner filter\<close>

text \<open>
  The spec's words: a path is yielded when its extension, compared case-insensitively,
  is one of jpg, jpeg, png, webp, bmp, avif. Read on the text of the path: lower-cased,
  it ends in a dot followed by one of the six.
\<close>

definition ends_with :: "string \<Rightarrow> string \<Rightarrow> bool" where
  "ends_with s suffix = (length suffix \<le> length s \<and> drop (length s - length suffix) s = suffix)"

definition has_allowed_extension :: "path \<Rightarrow> bool" where
  "has_allowed_extension p =
     list_ex (\<lambda>ext. ends_with (map lower_char p) (CHR ''.'' # ext))
       [''jpg'', ''jpeg'', ''png'', ''webp'', ''bmp'', ''avif'']"

section \<open>Example directories\<close>

text \<open>
  In the examples the digest of a file is its content (\<open>\<lambda>d. d\<close> for \<open>md5\<close>), so a file
  holding the single byte 1 has the hash \<open>01\<close>.
\<close>

definition demo_fs :: filesystem where
  "demo_fs =
     \<lparr>rglob = (\<lambda>startPath. if startPath = ''/r'' then [''/r/a.png'', ''/r/b.txt'', ''/r/c.JPG''] else []),
      lookup = (\<lambda>p. if p = ''/r/a.png'' then Some (RegularFile [1])
                    else if p = ''/r/b.txt'' then Some (RegularFile [2])
                    else if p = ''/r/c.JPG'' then Some (RegularFile [3])
                    else None)\<rparr>"

definition unreadable_fs :: filesystem where
  "unreadable_fs =
     \<lparr>rglob = (\<lambda>startPath. if startPath = ''/r'' then [''/r/a.png'', ''/r/d.png'', ''/r/e.jpg''] else []),
      lookup = (\<lambda>p. if p = ''/r/a.png'' then Some (RegularFile [1])
                    else if p = ''/r/d.png'' then Some NoAccess
                    else if p = ''/r/e.jpg'' then Some (RegularFile [5])
                    else None)\<rparr>"

definition folder_fs :: filesystem where
  "folder_fs =
     \<lparr>rglob = (\<lambda>startPath. if startPath = ''/r'' then [''/r/a.png'', ''/r/x.png'', ''/r/x.png/y.jpg''] else []),
      lookup = (\<lambda>p. if p = ''/r/a.png'' then Some (RegularFile [1])
                    else if p = ''/r/x.png'' then Some Directory
                    else if p = ''/r/x.png/y.jpg'' then Some (RegularFile [7])
                    else None)\<rparr>"

definition later_fs :: filesystem where
  "later_fs =
     \<lparr>rglob = (\<lambda>startPath. if startPath = ''/r'' then [''/r/a.png'', ''/r/b.png''] else []),
      lookup = (\<lambda>p. if p = ''/r/a.png'' then Some (RegularFile [1])
                    else if p = ''/r/b.png'' then Some (RegularFile [2])
                    else None)\<rparr>"

definition shrunk_fs :: filesystem where
  "shrunk_fs =
     \<lparr>rglob = (\<lambda>startPath. if startPath = ''/r'' then [''/r/b.txt'', ''/r/c.JPG''] else []),
      lookup = (\<lambda>p. if p = ''/r/b.txt'' then Some (RegularFile [2])
                    else if p = ''/r/c.JPG'' then Some (RegularFile [3])
                    else None)\<rparr>"

definition emptied_fs :: filesystem where
  "emptied_fs = \<lparr>rglob = (\<lambda>startPath. []), lookup = (\<lambda>p. None)\<rparr>"

section \<open>Invariant of the reconciliation loop\<close>

text \<open>
  What holds of the dictionary under construction and of what the generator has left:
  the remaining paths are distinct, every list of the dictionary is distinct and shares
  no path with the remaining ones, and the lists of two labels share no path.
\<close>

definition dict_ok :: "classDict \<Rightarrow> path list \<Rightarrow> bool" where
  "dict_ok m files \<longleftrightarrow>
     distinct files \<and>
     (\<forall>l ps. m l = Some ps \<longrightarrow> distinct ps \<and> set ps \<inter> set files = {}) \<and>
     (\<forall>l l' ps ps'. l \<noteq> l' \<longrightarrow> m l = Some ps \<longrightarrow> m l' = Some ps' \<longrightarrow> set ps \<inter> set ps' = {})"

section \<open>The store on quote-free values\<close>

text \<open>
  A hexadecimal digest holds no quote character, and neither does the label of the
  classifier stub. On such values the interpolated queries do what a bound parameter
  would: the membership query tests membership, the insert appends the row.
\<close>

lemma strip_prefix_append: "strip_prefix p (p @ s) = Some s"
  by (induction p) simp_all

lemma sql_string_body_plain:
  "sq \<notin> set h \<Longrightarrow> rest = [] \<or> hd rest \<noteq> sq \<Longrightarrow> sql_string_body (h @ sq # rest) = Some (h, rest)"
proof (induction h)
  case Nil
  then show ?case by (cases rest) auto
next
  case (Cons c h)
  then show ?case by (cases h) auto
qed

lemma hex_digit_not_quote: "hex_digit n \<noteq> sq"
proof -
  have "hex_digit n \<in> set ''0123456789abcdef''"
    unfolding hex_digit_def by (rule nth_mem) simp
  then show ?thesis by (auto simp: sq_def)
qed

lemma hexdigest_no_quote: "sq \<notin> set (hexdigest d)"
  by (induction d) (simp_all add: hexdigest_def hex_digit_not_quote[symmetric])

lemma hashExist_plain:
  assumes "sq \<notin> set h"
  shows "hashExist conn h = Inr (h \<in> fst ` set conn)"
proof -
  have lit: "sql_string_body (h @ sq # '')'') = Some (h, '')'')"
    using assms by (intro sql_string_body_plain) (simp_all add: sq_def)
  have op2: "parse_operand (sq # h @ sq # '')'') = Some (Literal h, '')'')"
    using lit by (simp add: parse_operand_def sq_def)
  have eq: "parse_equality (''hash='' @ sq # h @ sq # '')'') = Some ((Column_hash, Literal h), '')'')"
    using op2 by (simp add: parse_equality_def parse_operand_def)
  have cond: "parse_condition (Suc n) (''hash='' @ sq # h @ sq # '')'') = Some ([(Column_hash, Literal h)], '')'')" for n
    using eq by simp
  have holds: "list_ex (condition_holds [(Column_hash, Literal h)]) conn = (h \<in> fst ` set conn)"
    by (auto simp: list_ex_iff condition_holds_def)
  have "executeQuery conn (''SELECT EXISTS(SELECT 1 FROM media WHERE hash='' @ [sq] @ h @ [sq] @ '')'')
      = Inr ([[Integer (if h \<in> fst ` set conn then 1 else 0)]], conn)"
    using cond holds by (simp add: executeQuery_def execute_exists_def)
  then show ?thesis by (simp add: hashExist_def)
qed

lemma insert_plain:
  assumes "sq \<notin> set h" "sq \<notin> set l"
  shows "executeQuery conn (''INSERT OR REPLACE INTO media(hash, imageClass) VALUES(''
            @ [sq] @ h @ [sq] @ '', '' @ [sq] @ l @ [sq] @ '')'')
         = Inr ([], filter (\<lambda>r. fst r \<noteq> h) conn @ [(h, l)])"
proof -
  have lit1: "sql_string_body (h @ sq # '', '' @ sq # l @ sq # '')'') = Some (h, '', '' @ sq # l @ sq # '')'')"
    using assms(1) by (intro sql_string_body_plain) (simp_all add: sq_def)
  have lit2: "sql_string_body (l @ sq # '')'') = Some (l, '')'')"
    using assms(2) by (intro sql_string_body_plain) (simp_all add: sq_def)
  have "execute_insert conn (sq # h @ sq # '', '' @ sq # l @ sq # '')'')
      = Inr ([], filter (\<lambda>r. fst r \<noteq> h) conn @ [(h, l)])"
    using lit1 lit2 by (simp add: execute_insert_def)
  then show ?thesis by (simp add: executeQuery_def)
qed


lemma genHash_no_quote: "genHash md5 fs file = Inr h \<Longrightarrow> sq \<notin> set h"
  by (auto simp: genHash_def hexdigest_no_quote split: sum.splits)

lemma filter_absent_key: "h \<notin> fst ` set conn \<Longrightarrow> filter (\<lambda>r. fst r \<noteq> h) conn = conn"
  by (induction conn) auto

lemma processImgs_step:
  "processImgs md5 fs conn (file # files) =
     (if \<not> isImg file then processImgs md5 fs conn files
      else
        (case genHash md5 fs file of
           Inl e \<Rightarrow> (conn, Some e)
         | Inr h \<Rightarrow>
             if h \<in> fst ` set conn then processImgs md5 fs conn files
             else processImgs md5 fs (conn @ [(h, ''thing'')]) files))"
proof (cases "genHash md5 fs file")
  case (Inl e)
  then show ?thesis by simp
next
  case (Inr h)
  then have nq: "sq \<notin> set h" by (rule genHash_no_quote)
  have nq': "sq \<notin> set ''thing''" by (simp add: sq_def)
  show ?thesis
    using Inr hashExist_plain[OF nq, of conn] insert_plain[OF nq nq', of conn]
    by (simp add: classifyImg_def filter_absent_key)
qed

lemma processImgs_extends:
  "\<exists>new. fst (processImgs md5 fs conn files) = conn @ new \<and> fst ` set new \<inter> fst ` set conn = {}"
proof (induction files arbitrary: conn)
  case Nil
  then show ?case by simp
next
  case (Cons f files)
  show ?case
  proof (cases "isImg f")
    case False
    then show ?thesis using Cons.IH[of conn] by (simp only: processImgs_step if_True if_False simp_thms)
  next
    case True
    show ?thesis
    proof (cases "genHash md5 fs f")
      case (Inl e)
      then show ?thesis using True by (simp add: processImgs_step del: processImgs.simps(2))
    next
      case (Inr h)
      show ?thesis
      proof (cases "h \<in> fst ` set conn")
        case yes: True
        then show ?thesis using True Inr Cons.IH[of conn]
          by (simp add: processImgs_step del: processImgs.simps(2))
      next
        case no: False
        obtain new where n: "fst (processImgs md5 fs (conn @ [(h, ''thing'')]) files) = (conn @ [(h, ''thing'')]) @ new"
          "fst ` set new \<inter> fst ` set (conn @ [(h, ''thing'')]) = {}"
          using Cons.IH[of "conn @ [(h, ''thing'')]"] by blast
        have "fst (processImgs md5 fs conn (f # files)) = conn @ ((h, ''thing'') # new)"
          using True Inr no n(1) by (simp add: processImgs_step del: processImgs.simps(2))
        moreover have "fst ` set ((h, ''thing'') # new) \<inter> fst ` set conn = {}"
          using n(2) no by auto
        ultimately show ?thesis by blast
      qed
    qed
  qed
qed

lemma processImgs_keys_mono:
  "fst ` set conn \<subseteq> fst ` set (fst (processImgs md5 fs conn files))"
  using processImgs_extends[of md5 fs conn files] by auto

lemma processImgs_second_pass:
  "processImgs md5 fs conn files = (conn1, r) \<Longrightarrow> fst ` set conn1 \<subseteq> fst ` set conn2
   \<Longrightarrow> processImgs md5 fs conn2 files = (conn2, r)"
proof (induction files arbitrary: conn)
  case Nil
  then show ?case by simp
next
  case (Cons f files)
  show ?case
  proof (cases "isImg f")
    case False
    then show ?thesis using Cons by (simp add: processImgs_step del: processImgs.simps(2))
  next
    case True
    show ?thesis
    proof (cases "genHash md5 fs f")
      case (Inl e)
      then show ?thesis using True Cons.prems
        by (simp add: processImgs_step del: processImgs.simps(2))
    next
      case (Inr h)
      show ?thesis
      proof (cases "h \<in> fst ` set conn")
        case yes: True
        then have "processImgs md5 fs conn files = (conn1, r)"
          using True Inr Cons.prems(1) by (simp add: processImgs_step del: processImgs.simps(2))
        moreover have "h \<in> fst ` set conn2"
          using yes processImgs_keys_mono[of conn md5 fs "f # files"] Cons.prems by auto
        ultimately show ?thesis using True Inr Cons.IH[of conn] Cons.prems(2)
          by (simp add: processImgs_step del: processImgs.simps(2))
      next
        case no: False
        then have run: "processImgs md5 fs (conn @ [(h, ''thing'')]) files = (conn1, r)"
          using True Inr Cons.prems(1) by (simp add: processImgs_step del: processImgs.simps(2))
        have "h \<in> fst ` set conn1"
          using processImgs_keys_mono[of "conn @ [(h, ''thing'')]" md5 fs files] run by auto
        then have "h \<in> fst ` set conn2" using Cons.prems(2) by auto
        then show ?thesis using True Inr Cons.IH[OF run Cons.prems(2)]
          by (simp add: processImgs_step del: processImgs.simps(2))
      qed
    qed
  qed
qed

lemma processImgs_append:
  "processImgs md5 fs conn pre = (conn1, None) \<Longrightarrow>
   processImgs md5 fs conn (pre @ rest) = processImgs md5 fs conn1 rest"
proof (induction pre arbitrary: conn)
  case Nil
  then show ?case by simp
next
  case (Cons f pre)
  show ?case
  proof (cases "isImg f")
    case False
    then show ?thesis using Cons by (simp add: processImgs_step del: processImgs.simps(2))
  next
    case True
    then show ?thesis using Cons
      by (cases "genHash md5 fs f") (auto simp add: processImgs_step simp del: processImgs.simps split: if_splits)
  qed
qed


lemmas img_eval = isImg_def splitext_def splitext_scan.simps lower_def lower_char_def imgExts_def
lemmas hash_eval = genHash_def open_rb_def hexdigest_def hex_digit_def

section \<open>Indexer: idempotence and immutability of records\<close>

text \<open>
  C5. Running the Indexer a second time over the same paths of the same unchanged
  file system, starting from the store the first run left, returns that store
  unchanged, row for row and in the same order: no row added, none removed, no label
  changed. If the first run stopped at an unreadable file, the second stops at the
  same file with the same exception.
\<close>

theorem processImgs_idempotent:
  "processImgs md5 fs (fst (processImgs md5 fs conn files)) files = processImgs md5 fs conn files"
  using processImgs_second_pass[of md5 fs conn files "fst (processImgs md5 fs conn files)"
      "snd (processImgs md5 fs conn files)" "fst (processImgs md5 fs conn files)"]
  by simp

text \<open>
  C6. Once the store holds a record with hash \<open>h\<close>, an Indexer pass over any list of
  paths of any file system leaves the rows with that hash exactly as they were: the
  label is not overwritten and the file is not classified again.
\<close>

theorem processImgs_keeps_existing_record:
  assumes "h \<in> fst ` set conn"
  shows "filter (\<lambda>r. fst r = h) (fst (processImgs md5 fs conn files)) = filter (\<lambda>r. fst r = h) conn"
proof -
  obtain new where n: "fst (processImgs md5 fs conn files) = conn @ new"
      "fst ` set new \<inter> fst ` set conn = {}"
    using processImgs_extends by blast
  have "filter (\<lambda>r. fst r = h) new = []"
    using n(2) assms by (auto simp: filter_empty_conv)
  then show ?thesis using n(1) by simp
qed

theorem processImgs_keeps_existing_record_witness:
  "''01'' \<in> fst ` set [(''01'', ''cat'')] \<and>
   fst (processImgs (\<lambda>d. d) demo_fs [(''01'', ''cat'')] (imgPaths demo_fs ''/r''))
     = [(''01'', ''cat''), (''03'', ''thing'')] \<and>
   filter (\<lambda>r. fst r = ''01'')
       (fst (processImgs (\<lambda>d. d) demo_fs [(''01'', ''cat'')] (imgPaths demo_fs ''/r'')))
     = [(''01'', ''cat'')]"
proof -
  have run: "processImgs (\<lambda>d. d) demo_fs [(''01'', ''cat'')] (imgPaths demo_fs ''/r'')
     = ([(''01'', ''cat''), (''03'', ''thing'')], None)"
    by (simp add: imgPaths_def demo_fs_def img_eval hash_eval processImgs_step
        del: processImgs.simps(2))
  have present: "''01'' \<in> fst ` set [(''01'', ''cat'')]" by simp
  show ?thesis
    using processImgs_keeps_existing_record[OF present, of "\<lambda>d. d" demo_fs "imgPaths demo_fs ''/r''"] run
    by simp
qed

lemma processImgs_stops_at_unreadable:
  assumes "open_rb fs bad = Inl e"
    and "isImg bad"
    and "processImgs md5 fs conn pre = (conn1, None)"
  shows "genHash md5 fs bad = Inl e \<and>
         processImgs md5 fs conn (pre @ bad # post) = (conn1, Some e)"
proof -
  have h: "genHash md5 fs bad = Inl e"
    using assms(1) by (simp add: genHash_def)
  have "processImgs md5 fs conn (pre @ bad # post) = processImgs md5 fs conn1 (bad # post)"
    using assms(3) by (rule processImgs_append)
  also have "\<dots> = (conn1, Some e)"
    using h assms(2) by (simp add: processImgs_step del: processImgs.simps(2))
  finally show ?thesis using h by simp
qed

section \<open>A read error and the commit\<close>

lemma createTable_media:
  "createTable conn ''media'' [''hash TEXT PRIMARY KEY'', ''imageClass TEXT''] = Inr conn"
  by (simp add: createTable_def executeQuery_def)

text \<open>
  C8, as amended. When the file at a path cannot be opened and read, \<open>genHash\<close> returns
  the I/O error instead of a hash. The first image path of the traversal whose file
  cannot be read ends the Indexer pass with that error; the paths after it are not
  looked at, and the open connection holds the rows the pass over the paths before it
  wrote. The error leaves \<open>classifyPath\<close> before the commit, so none of those rows is
  committed: the database keeps the rows it held before the run.
\<close>

theorem read_error_aborts_pass_before_commit:
  assumes "open_rb fs bad = Inl e"
    and "isImg bad"
    and "imgPaths fs home = pre @ bad # post"
    and "processImgs md5 fs (connectDB db) pre = (conn1, None)"
  shows "genHash md5 fs bad = Inl e \<and>
         processImgs md5 fs (connectDB db) (imgPaths fs home) = (conn1, Some e) \<and>
         classifyPath md5 fs home db = (Inl e, db)"
proof -
  have stop: "genHash md5 fs bad = Inl e \<and>
      processImgs md5 fs (connectDB db) (pre @ bad # post) = (conn1, Some e)"
    using assms(1,2,4) by (rule processImgs_stops_at_unreadable)
  then have run: "processImgs md5 fs (connectDB db) (imgPaths fs home) = (conn1, Some e)"
    using assms(3) by simp
  then have "classifyPath md5 fs home db = (Inl e, db)"
    by (simp add: classifyPath_def createTable_media)
  then show ?thesis using stop run by simp
qed

theorem read_error_aborts_pass_before_commit_witness:
  "open_rb unreadable_fs ''/r/d.png'' = Inl PermissionError \<and> isImg ''/r/d.png'' \<and>
   imgPaths unreadable_fs ''/r'' = [''/r/a.png''] @ ''/r/d.png'' # [''/r/e.jpg''] \<and>
   processImgs (\<lambda>d. d) unreadable_fs (connectDB [(''09'', ''cat'')]) [''/r/a.png'']
     = ([(''09'', ''cat''), (''01'', ''thing'')], None) \<and>
   genHash (\<lambda>d. d) unreadable_fs ''/r/d.png'' = Inl PermissionError \<and>
   processImgs (\<lambda>d. d) unreadable_fs (connectDB [(''09'', ''cat'')]) (imgPaths unreadable_fs ''/r'')
     = ([(''09'', ''cat''), (''01'', ''thing'')], Some PermissionError) \<and>
   classifyPath (\<lambda>d. d) unreadable_fs ''/r'' [(''09'', ''cat'')] = (Inl PermissionError, [(''09'', ''cat'')])"
proof -
  have a: "open_rb unreadable_fs ''/r/d.png'' = Inl PermissionError"
    by (simp add: open_rb_def unreadable_fs_def)
  have b: "isImg ''/r/d.png''"
    by (simp add: img_eval)
  have c: "imgPaths unreadable_fs ''/r'' = [''/r/a.png''] @ ''/r/d.png'' # [''/r/e.jpg'']"
    by (simp add: imgPaths_def unreadable_fs_def img_eval)
  have d: "processImgs (\<lambda>d. d) unreadable_fs (connectDB [(''09'', ''cat'')]) [''/r/a.png'']
     = ([(''09'', ''cat''), (''01'', ''thing'')], None)"
    by (simp add: connectDB_def unreadable_fs_def img_eval hash_eval processImgs_step
        del: processImgs.simps(2))
  show ?thesis
    using a b c d read_error_aborts_pass_before_commit[OF a b c d]
    by simp
qed

text \<open>
  C8, as stated, fails on the store state. The database is empty, \<open>a.png\<close> is read and
  its row written, \<open>d.png\<close> cannot be read: the run ends with \<open>PermissionError\<close> and
  the database is still empty, it does not hold the row of \<open>a.png\<close>.
\<close>

theorem aborted_pass_commits_no_row:
  "processImgs (\<lambda>d. d) unreadable_fs (connectDB []) [''/r/a.png''] = ([(''01'', ''thing'')], None) \<and>
   classifyPath (\<lambda>d. d) unreadable_fs ''/r'' [] = (Inl PermissionError, []) \<and>
   snd (classifyPath (\<lambda>d. d) unreadable_fs ''/r'' []) \<noteq> [(''01'', ''thing'')]"
  by (simp add: classifyPath_def createTable_media connectDB_def imgPaths_def unreadable_fs_def
      img_eval hash_eval processImgs_step del: processImgs.simps(2))

section \<open>Scanner: only allow-listed extensions\<close>

lemma splitext_scan_snd:
  "snd (splitext_scan p i d) = [] \<or> snd (splitext_scan p i d) = drop (nat d) p"
proof (induction p i d rule: splitext_scan.induct)
  case (1 p filenameIndex dotIndex)
  show ?case
  proof (cases "filenameIndex < dotIndex \<and> take 1 (drop (nat filenameIndex) p) = ''.''")
    case True
    then have "splitext_scan p filenameIndex dotIndex = splitext_scan p (filenameIndex + 1) dotIndex"
      by (subst splitext_scan.simps) simp
    then show ?thesis using 1 True by simp
  next
    case False
    then show ?thesis by (subst (1 2) splitext_scan.simps) auto
  qed
qed

lemma splitext_snd: "snd (splitext p) = [] \<or> (\<exists>n. snd (splitext p) = drop n p)"
  using splitext_scan_snd[of p "rfind p CHR ''/'' + 1" "rfind p CHR ''.''"]
  by (auto simp: splitext_def Let_def)

lemma ends_with_drop: "ends_with s (drop n s)"
  by (cases "n \<le> length s") (simp_all add: ends_with_def)

lemma isImg_has_allowed_extension:
  assumes "isImg p"
  shows "has_allowed_extension p"
proof -
  from assms have m: "lower (snd (splitext p)) \<in> set imgExts"
    by (simp add: isImg_def)
  then have "snd (splitext p) \<noteq> []"
    by (auto simp: lower_def imgExts_def)
  then obtain n where n: "snd (splitext p) = drop n p"
    using splitext_snd[of p] by blast
  have "lower (drop n p) = drop n (map lower_char p)"
    by (simp add: lower_def drop_map)
  then have "drop n (map lower_char p) \<in> set imgExts"
    using m n by simp
  moreover have "ends_with (map lower_char p) (drop n (map lower_char p))"
    by (rule ends_with_drop)
  ultimately show ?thesis
    by (auto simp: has_allowed_extension_def imgExts_def)
qed

text \<open>
  C7. The Scanner yields a path only if the walk produced it and its extension,
  compared case-insensitively, is one of jpg, jpeg, png, webp, bmp, avif; a path
  without such an extension is never yielded. The file system's content plays no part:
  the statement holds for every \<open>fs\<close>.
\<close>

theorem imgPaths_only_allowed_extensions:
  "(p \<in> set (imgPaths fs startPath) \<longrightarrow> p \<in> set (rglob fs startPath) \<and> has_allowed_extension p) \<and>
   (\<not> has_allowed_extension p \<longrightarrow> p \<notin> set (imgPaths fs startPath))"
  using isImg_has_allowed_extension[of p] by (auto simp: imgPaths_def)

theorem imgPaths_only_allowed_extensions_witness:
  "''/r/c.JPG'' \<in> set (imgPaths demo_fs ''/r'') \<and> has_allowed_extension ''/r/c.JPG'' \<and>
   \<not> has_allowed_extension ''/r/b.txt'' \<and> ''/r/b.txt'' \<in> set (rglob demo_fs ''/r'') \<and>
   ''/r/b.txt'' \<notin> set (imgPaths demo_fs ''/r'')"
proof -
  have a: "''/r/c.JPG'' \<in> set (imgPaths demo_fs ''/r'')"
    by (simp add: imgPaths_def demo_fs_def img_eval)
  have b: "\<not> has_allowed_extension ''/r/b.txt''"
    by (simp add: has_allowed_extension_def ends_with_def lower_char_def)
  have c: "''/r/b.txt'' \<in> set (rglob demo_fs ''/r'')"
    by (simp add: demo_fs_def)
  show ?thesis
    using a b c imgPaths_only_allowed_extensions[of "''/r/c.JPG''" demo_fs "''/r''"]
      imgPaths_only_allowed_extensions[of "''/r/b.txt''" demo_fs "''/r''"]
    by simp
qed



section \<open>A directory named like an image\<close>

lemma processImgs_unreadable_aborts:
  "f \<in> set files \<Longrightarrow> isImg f \<Longrightarrow> open_rb fs f = Inl e \<Longrightarrow>
   \<exists>p e'. p \<in> set files \<and> isImg p \<and> open_rb fs p = Inl e' \<and> snd (processImgs md5 fs conn files) = Some e'"
proof (induction files arbitrary: conn)
  case Nil
  then show ?case by simp
next
  case (Cons g files)
  have tail: "\<exists>p e'. p \<in> set (g # files) \<and> isImg p \<and> open_rb fs p = Inl e' \<and>
      snd (processImgs md5 fs c files) = Some e'" if "f \<in> set files" for c
    using Cons.IH[OF that Cons.prems(2,3), of c] by auto
  show ?case
  proof (cases "isImg g")
    case False
    then have "f \<in> set files" using Cons.prems by auto
    from tail[OF this, of conn] False show ?thesis
      by (simp add: processImgs_step del: processImgs.simps(2))
  next
    case True
    show ?thesis
    proof (cases "open_rb fs g")
      case (Inl e')
      then have "snd (processImgs md5 fs conn (g # files)) = Some e'"
        using True by (simp add: processImgs_step genHash_def del: processImgs.simps(2))
      then show ?thesis using True Inl by auto
    next
      case (Inr d)
      then have "f \<noteq> g" using Cons.prems(3) by auto
      then have fin: "f \<in> set files" using Cons.prems by auto
      have "processImgs md5 fs conn (g # files) = processImgs md5 fs conn files \<or>
            processImgs md5 fs conn (g # files) = processImgs md5 fs (conn @ [(hexdigest (md5 d), ''thing'')]) files"
        using Inr True by (simp add: processImgs_step genHash_def del: processImgs.simps(2))
      then show ?thesis
        using tail[OF fin, of conn] tail[OF fin, of "conn @ [(hexdigest (md5 d), ''thing'')]"]
        by (elim disjE) simp_all
    qed
  qed
qed

text \<open>
  C10. The image test looks at the text of the path only. A directory that the walk
  produces and whose name passes the test is yielded like a file; \<open>genHash\<close> fails on
  it with \<open>IsADirectoryError\<close>, and the Indexer pass over the yielded paths ends with
  the I/O error of an unreadable path (this directory, or an unreadable path met
  before it).
\<close>

theorem directory_named_like_image_aborts_indexing:
  assumes "p \<in> set (rglob fs startPath)"
    and "lookup fs p = Some Directory"
    and "isImg p"
  shows "p \<in> set (imgPaths fs startPath) \<and>
         genHash md5 fs p = Inl IsADirectoryError \<and>
         (\<exists>q e. q \<in> set (imgPaths fs startPath) \<and> open_rb fs q = Inl e \<and>
                snd (processImgs md5 fs conn (imgPaths fs startPath)) = Some e)"
proof -
  have y: "p \<in> set (imgPaths fs startPath)"
    using assms(1,3) by (simp add: imgPaths_def)
  have o: "open_rb fs p = Inl IsADirectoryError"
    using assms(2) by (simp add: open_rb_def)
  then have g: "genHash md5 fs p = Inl IsADirectoryError"
    by (simp add: genHash_def)
  obtain q e where "q \<in> set (imgPaths fs startPath)" "open_rb fs q = Inl e"
      "snd (processImgs md5 fs conn (imgPaths fs startPath)) = Some e"
    using processImgs_unreadable_aborts[OF y assms(3) o, of md5 conn] by auto
  then show ?thesis using y g by auto
qed

theorem directory_named_like_image_aborts_indexing_witness:
  "''/r/x.png'' \<in> set (rglob folder_fs ''/r'') \<and> lookup folder_fs ''/r/x.png'' = Some Directory \<and>
   isImg ''/r/x.png'' \<and> ''/r/x.png'' \<in> set (imgPaths folder_fs ''/r'') \<and>
   genHash (\<lambda>d. d) folder_fs ''/r/x.png'' = Inl IsADirectoryError \<and>
   processImgs (\<lambda>d. d) folder_fs [] (imgPaths folder_fs ''/r'') = ([(''01'', ''thing'')], Some IsADirectoryError)"
proof -
  have a: "''/r/x.png'' \<in> set (rglob folder_fs ''/r'')" by (simp add: folder_fs_def)
  have b: "lookup folder_fs ''/r/x.png'' = Some Directory" by (simp add: folder_fs_def)
  have c: "isImg ''/r/x.png''" by (simp add: img_eval)
  have run: "processImgs (\<lambda>d. d) folder_fs [] (imgPaths folder_fs ''/r'') = ([(''01'', ''thing'')], Some IsADirectoryError)"
    by (simp add: imgPaths_def folder_fs_def img_eval hash_eval processImgs_step del: processImgs.simps(2))
  show ?thesis
    using a b c run directory_named_like_image_aborts_indexing[OF a b c, of "\<lambda>d. d" "[]"]
    by simp
qed


section \<open>Reconciler: what one call returns\<close>

lemma fileByClass_media:
  "fileByClass md5 fs conn files ''media'' =
     fileByClass_rows md5 fs (map (\<lambda>(h, l). [Text l, Text h]) conn) files Map.empty"
  by (simp add: fileByClass_def executeQuery_def)

lemma detect_found:
  "detectFileWithHash md5 fs files h = (Inr (Some p), files') \<Longrightarrow> \<exists>pre. files = pre @ p # files'"
proof (induction files)
  case Nil
  then show ?case by simp
next
  case (Cons f files)
  show ?case
  proof (cases "detectFileWithHash md5 fs (f # files) h = detectFileWithHash md5 fs files h")
    case True
    then obtain pre where "files = pre @ p # files'" using Cons by auto
    then have "f # files = (f # pre) @ p # files'" by simp
    then show ?thesis by blast
  next
    case False
    then have "p = f \<and> files' = files"
      using Cons.prems by (auto split: if_splits sum.splits)
    then have "f # files = [] @ p # files'" by simp
    then show ?thesis by blast
  qed
qed

lemma detect_none:
  "detectFileWithHash md5 fs files h = (Inr None, files') \<Longrightarrow> files' = []"
  by (induction files) (auto split: if_splits sum.splits)

lemma detect_readable:
  "\<forall>f\<in>set files. isImg f \<longrightarrow> (\<exists>d. open_rb fs f = Inr d) \<Longrightarrow>
   \<exists>r. fst (detectFileWithHash md5 fs files h) = Inr r"
  by (induction files) (auto simp: genHash_def)

lemma detect_rest_subset:
  "set (snd (detectFileWithHash md5 fs files h)) \<subseteq> set files"
  by (induction files) (auto split: sum.splits)

lemma fileByClass_rows_step:
  "fileByClass_rows md5 fs ([Text c, Text h] # rows) files m =
     (case detectFileWithHash md5 fs files h of
        (Inl e, files') \<Rightarrow> Inl e
      | (Inr None, files') \<Rightarrow>
          fileByClass_rows md5 fs rows files' (if m c = None then m(c \<mapsto> []) else m)
      | (Inr (Some p), files') \<Rightarrow>
          if p = [] then fileByClass_rows md5 fs rows files' (if m c = None then m(c \<mapsto> []) else m)
          else fileByClass_rows md5 fs rows files'
                 ((if m c = None then m(c \<mapsto> []) else m)(c \<mapsto> (case m c of None \<Rightarrow> [] | Some ps \<Rightarrow> ps) @ [p])))"
  by (auto split: prod.splits sum.splits option.splits)

lemma dict_ok_new_label: "dict_ok m files \<Longrightarrow> m c = None \<Longrightarrow> dict_ok (m(c \<mapsto> [])) files"
  by (auto simp: dict_ok_def)

lemma dict_ok_suffix: "dict_ok m (pre @ files') \<Longrightarrow> dict_ok m files'"
  unfolding dict_ok_def by (simp add: Int_Un_distrib)

lemma dict_ok_append_path:
  assumes "dict_ok m (pre @ p # files')"
  shows "dict_ok (m(c \<mapsto> (case m c of None \<Rightarrow> [] | Some ps \<Rightarrow> ps) @ [p])) files'"
proof -
  have d: "distinct files'" "p \<notin> set files'"
    using assms by (auto simp: dict_ok_def)
  have notin: "p \<notin> set ps" if "m l = Some ps" for l ps
    using assms that by (auto simp: dict_ok_def)
  have old: "distinct ps" if "m l = Some ps" for l ps
    using assms that unfolding dict_ok_def by fastforce
  have apart: "x \<notin> set files'" if "m l = Some ps" "x \<in> set ps" for l ps x
    using assms that unfolding dict_ok_def by fastforce
  have cross: "x \<notin> set ps'" if "l \<noteq> l'" "m l = Some ps" "m l' = Some ps'" "x \<in> set ps"
    for l l' ps ps' x
    using assms that unfolding dict_ok_def by blast
  show ?thesis
    unfolding dict_ok_def
  proof (intro conjI allI impI)
    show "distinct files'" by (rule d)
  next
    fix l ps
    assume "(m(c \<mapsto> (case m c of None \<Rightarrow> [] | Some ps \<Rightarrow> ps) @ [p])) l = Some ps"
    then show "distinct ps" using old notin
      by (auto split: if_splits option.splits)
  next
    fix l ps
    assume "(m(c \<mapsto> (case m c of None \<Rightarrow> [] | Some ps \<Rightarrow> ps) @ [p])) l = Some ps"
    then show "set ps \<inter> set files' = {}" using apart d
      by (auto split: if_splits option.splits)
  next
    fix l l' ps ps'
    assume "l \<noteq> l'"
      "(m(c \<mapsto> (case m c of None \<Rightarrow> [] | Some ps \<Rightarrow> ps) @ [p])) l = Some ps"
      "(m(c \<mapsto> (case m c of None \<Rightarrow> [] | Some ps \<Rightarrow> ps) @ [p])) l' = Some ps'"
    then show "set ps \<inter> set ps' = {}" using cross notin
      by (auto split: if_splits option.splits)
  qed
qed

lemma fileByClass_rows_dict_ok:
  "dict_ok m files \<Longrightarrow>
   fileByClass_rows md5 fs (map (\<lambda>(h, l). [Text l, Text h]) conn) files m = Inr m' \<Longrightarrow>
   \<exists>files'. dict_ok m' files'"
proof (induction conn arbitrary: m files)
  case Nil
  then show ?case by auto
next
  case (Cons r conn)
  obtain h c where r: "r = (h, c)" by (cases r)
  define m1 where "m1 = (if m c = None then m(c \<mapsto> []) else m)"
  have ok1: "dict_ok m1 files"
    using Cons.prems(1) by (simp add: m1_def dict_ok_new_label)
  have m1c: "(case m c of None \<Rightarrow> [] | Some ps \<Rightarrow> ps) = (case m1 c of None \<Rightarrow> [] | Some ps \<Rightarrow> ps)"
    by (simp add: m1_def split: option.splits)
  obtain res files' where det: "detectFileWithHash md5 fs files h = (res, files')"
    by (cases "detectFileWithHash md5 fs files h")
  show ?case
  proof (cases res)
    case (Inl e)
    then show ?thesis using Cons.prems(2) det r
      by (simp add: fileByClass_rows_step del: fileByClass_rows.simps)
  next
    case (Inr found)
    show ?thesis
    proof (cases found)
      case None
      then have "files' = []" using det Inr detect_none by blast
      then have "dict_ok m1 files'" using ok1 dict_ok_suffix[of m1 files "[]"] by simp
      moreover have "fileByClass_rows md5 fs (map (\<lambda>(h, l). [Text l, Text h]) conn) files' m1 = Inr m'"
        using Cons.prems(2) det r Inr None
        by (simp add: fileByClass_rows_step m1_def del: fileByClass_rows.simps)
      ultimately show ?thesis using Cons.IH by blast
    next
      case (Some p)
      then obtain pre where pre: "files = pre @ p # files'"
        using det Inr detect_found by blast
      show ?thesis
      proof (cases "p = []")
        case True
        have "dict_ok m1 files'"
          using ok1 pre dict_ok_suffix[of m1 "pre @ [p]" files'] by simp
        moreover have "fileByClass_rows md5 fs (map (\<lambda>(h, l). [Text l, Text h]) conn) files' m1 = Inr m'"
          using Cons.prems(2) det r Inr Some True
          by (simp add: fileByClass_rows_step m1_def del: fileByClass_rows.simps)
        ultimately show ?thesis using Cons.IH by blast
      next
        case False
        have "dict_ok (m1(c \<mapsto> (case m1 c of None \<Rightarrow> [] | Some ps \<Rightarrow> ps) @ [p])) files'"
          using ok1 pre dict_ok_append_path by blast
        moreover have "fileByClass_rows md5 fs (map (\<lambda>(h, l). [Text l, Text h]) conn) files'
             (m1(c \<mapsto> (case m1 c of None \<Rightarrow> [] | Some ps \<Rightarrow> ps) @ [p])) = Inr m'"
          using Cons.prems(2) det r Inr Some False m1c
          by (simp add: fileByClass_rows_step m1_def del: fileByClass_rows.simps)
        ultimately show ?thesis using Cons.IH by blast
      qed
    qed
  qed
qed


lemma fileByClass_table:
  "fileByClass md5 fs conn files tableID = Inr m \<Longrightarrow> tableID = ''media''"
  by (auto simp: fileByClass_def executeQuery_def split: option.splits if_splits sum.splits)

lemma fileByClass_rows_paths_from_files:
  "fileByClass_rows md5 fs (map (\<lambda>(h, l). [Text l, Text h]) conn) files m = Inr m' \<Longrightarrow>
   m' l = Some ps \<Longrightarrow> x \<in> set ps \<Longrightarrow>
   x \<in> set files \<or> (\<exists>ps0. m l = Some ps0 \<and> x \<in> set ps0)"
proof (induction conn arbitrary: m files)
  case Nil
  then show ?case by auto
next
  case (Cons r conn)
  obtain h c where r: "r = (h, c)" by (cases r)
  define m1 where "m1 = (if m c = None then m(c \<mapsto> []) else m)"
  have m1_old: "\<exists>ps0. m l = Some ps0 \<and> x \<in> set ps0" if "m1 l = Some ps1" "x \<in> set ps1" for ps1
    using that by (auto simp: m1_def split: if_splits)
  obtain res files' where det: "detectFileWithHash md5 fs files h = (res, files')"
    by (cases "detectFileWithHash md5 fs files h")
  have sub: "set files' \<subseteq> set files"
    using detect_rest_subset[of md5 fs files h] det by simp
  show ?case
  proof (cases res)
    case (Inl e)
    then show ?thesis using Cons.prems(1) det r
      by (simp add: fileByClass_rows_step del: fileByClass_rows.simps)
  next
    case (Inr found)
    show ?thesis
    proof (cases "found = None \<or> found = Some []")
      case True
      then have "fileByClass_rows md5 fs (map (\<lambda>(h, l). [Text l, Text h]) conn) files' m1 = Inr m'"
        using Cons.prems(1) det r Inr
        by (auto simp add: fileByClass_rows_step m1_def simp del: fileByClass_rows.simps)
      from Cons.IH[OF this Cons.prems(2,3)] show ?thesis
        using sub m1_old by blast
    next
      case False
      then obtain p where p: "found = Some p" "p \<noteq> []" by (cases found) auto
      then obtain pre where pre: "files = pre @ p # files'"
        using det Inr detect_found by blast
      define m2 where "m2 = m1(c \<mapsto> (case m c of None \<Rightarrow> [] | Some ps \<Rightarrow> ps) @ [p])"
      have "fileByClass_rows md5 fs (map (\<lambda>(h, l). [Text l, Text h]) conn) files' m2 = Inr m'"
        using Cons.prems(1) det r Inr p
        by (simp add: fileByClass_rows_step m1_def m2_def del: fileByClass_rows.simps)
      from Cons.IH[OF this Cons.prems(2,3)]
      have "x \<in> set files' \<or> (\<exists>ps0. m2 l = Some ps0 \<and> x \<in> set ps0)" .
      moreover have "x = p \<or> (\<exists>ps0. m l = Some ps0 \<and> x \<in> set ps0)"
        if "m2 l = Some ps2" "x \<in> set ps2" for ps2
        using that m1_old by (auto simp: m2_def split: if_splits option.splits)
      ultimately show ?thesis using sub pre by auto
    qed
  qed
qed

lemma fileByClass_rows_total:
  "\<forall>f\<in>set files. isImg f \<longrightarrow> (\<exists>d. open_rb fs f = Inr d) \<Longrightarrow>
   \<exists>m'. fileByClass_rows md5 fs (map (\<lambda>(h, l). [Text l, Text h]) conn) files m = Inr m' \<and>
        (\<forall>l. m l \<noteq> None \<longrightarrow> m' l \<noteq> None) \<and> (\<forall>r\<in>set conn. m' (snd r) \<noteq> None)"
proof (induction conn arbitrary: m files)
  case Nil
  then show ?case by auto
next
  case (Cons r conn)
  obtain h c where r: "r = (h, c)" by (cases r)
  define m1 where "m1 = (if m c = None then m(c \<mapsto> []) else m)"
  obtain res files' where det: "detectFileWithHash md5 fs files h = (res, files')"
    by (cases "detectFileWithHash md5 fs files h")
  have "set files' \<subseteq> set files"
    using detect_rest_subset[of md5 fs files h] det by simp
  then have readable': "\<forall>f\<in>set files'. isImg f \<longrightarrow> (\<exists>d. open_rb fs f = Inr d)"
    using Cons.prems by blast
  obtain found where found: "res = Inr found"
    using detect_readable[OF Cons.prems, of md5 h] det by auto
  define m2 where "m2 = (case found of None \<Rightarrow> m1 | Some p \<Rightarrow>
      if p = [] then m1 else m1(c \<mapsto> (case m c of None \<Rightarrow> [] | Some ps \<Rightarrow> ps) @ [p]))"
  have step: "fileByClass_rows md5 fs (map (\<lambda>(h, l). [Text l, Text h]) (r # conn)) files m
      = fileByClass_rows md5 fs (map (\<lambda>(h, l). [Text l, Text h]) conn) files' m2"
    using det r found
    by (simp add: fileByClass_rows_step m1_def m2_def del: fileByClass_rows.simps split: option.splits)
  have keep: "m2 l \<noteq> None" if "m l \<noteq> None \<or> l = c" for l
    using that by (auto simp: m2_def m1_def split: option.splits)
  obtain m' where m': "fileByClass_rows md5 fs (map (\<lambda>(h, l). [Text l, Text h]) conn) files' m2 = Inr m'"
      "\<forall>l. m2 l \<noteq> None \<longrightarrow> m' l \<noteq> None" "\<forall>r\<in>set conn. m' (snd r) \<noteq> None"
    using Cons.IH[OF readable', of m2] by blast
  have "\<forall>l. m l \<noteq> None \<longrightarrow> m' l \<noteq> None" using keep m'(2) by blast
  moreover have "\<forall>q\<in>set (r # conn). m' (snd q) \<noteq> None"
    using keep[of c] m'(2,3) r by auto
  ultimately show ?case using step m'(1) by auto
qed

text \<open>
  C9. In the mapping one reconciliation call returns, when the generator it was handed
  yields every path once (as a directory walk does), no path occurs twice in the list of
  a label and no path occurs in the lists of two labels: each lookup continues in what
  the previous lookups left of the generator.
\<close>

theorem fileByClass_paths_occur_once:
  assumes "distinct files"
    and "fileByClass md5 fs conn files tableID = Inr m"
  shows "(\<forall>l ps. m l = Some ps \<longrightarrow> distinct ps) \<and>
         (\<forall>l l' ps ps'. l \<noteq> l' \<longrightarrow> m l = Some ps \<longrightarrow> m l' = Some ps' \<longrightarrow> set ps \<inter> set ps' = {})"
proof -
  have t: "tableID = ''media''" using assms(2) by (rule fileByClass_table)
  have "dict_ok Map.empty files" using assms(1) by (simp add: dict_ok_def)
  moreover have "fileByClass_rows md5 fs (map (\<lambda>(h, l). [Text l, Text h]) conn) files Map.empty = Inr m"
    using assms(2) t by (simp add: fileByClass_media)
  ultimately obtain files' where "dict_ok m files'"
    using fileByClass_rows_dict_ok by blast
  then show ?thesis unfolding dict_ok_def by blast
qed

theorem fileByClass_paths_occur_once_witness:
  "distinct (imgPaths demo_fs ''/r'') \<and>
   fileByClass (\<lambda>d. d) demo_fs [(''01'', ''cat''), (''03'', ''thing'')] (imgPaths demo_fs ''/r'') ''media''
     = Inr [''cat'' \<mapsto> [''/r/a.png''], ''thing'' \<mapsto> [''/r/c.JPG'']] \<and>
   distinct [''/r/a.png''] \<and> distinct [''/r/c.JPG''] \<and> set [''/r/a.png''] \<inter> set [''/r/c.JPG''] = {}"
proof -
  have a: "distinct (imgPaths demo_fs ''/r'')"
    by (simp add: imgPaths_def demo_fs_def img_eval)
  have b: "fileByClass (\<lambda>d. d) demo_fs [(''01'', ''cat''), (''03'', ''thing'')] (imgPaths demo_fs ''/r'') ''media''
     = Inr [''cat'' \<mapsto> [''/r/a.png''], ''thing'' \<mapsto> [''/r/c.JPG'']]"
    by (simp add: fileByClass_media imgPaths_def demo_fs_def img_eval hash_eval)
  have c: "''cat'' \<noteq> ''thing''" by simp
  have d: "[''cat'' \<mapsto> [''/r/a.png''], ''thing'' \<mapsto> [''/r/c.JPG'']] ''cat'' = Some [''/r/a.png'']" by simp
  have e: "[''cat'' \<mapsto> [''/r/a.png''], ''thing'' \<mapsto> [''/r/c.JPG'']] ''thing'' = Some [''/r/c.JPG'']" by simp
  note once = fileByClass_paths_occur_once[OF a b]
  have d1: "distinct [''/r/a.png'']"
    by (rule once[THEN conjunct1, rule_format, OF d])
  have d2: "distinct [''/r/c.JPG'']"
    by (rule once[THEN conjunct1, rule_format, OF e])
  have d3: "set [''/r/a.png''] \<inter> set [''/r/c.JPG''] = {}"
    by (rule once[THEN conjunct2, rule_format, OF c d e])
  show ?thesis
    by (intro conjI a b d1 d2 d3)
qed

text \<open>
  C3, as amended. A path that the current traversal does not yield (the file was
  removed from disk) occurs in no list of the mapping the Reconciler returns, and a
  stored pair without a matching file raises nothing: when every yielded image file is
  readable, the Reconciler returns a mapping. The label of every stored pair, the stale
  one included, is a key of that mapping.
\<close>

theorem deleted_file_absent_from_mapping:
  assumes "p \<notin> set files"
    and "\<forall>f\<in>set files. isImg f \<longrightarrow> (\<exists>d. open_rb fs f = Inr d)"
  shows "\<exists>m. fileByClass md5 fs conn files ''media'' = Inr m \<and>
             (\<forall>l ps. m l = Some ps \<longrightarrow> p \<notin> set ps) \<and>
             (\<forall>r\<in>set conn. m (snd r) \<noteq> None)"
proof -
  obtain m where m: "fileByClass_rows md5 fs (map (\<lambda>(h, l). [Text l, Text h]) conn) files Map.empty = Inr m"
      "\<forall>r\<in>set conn. m (snd r) \<noteq> None"
    using fileByClass_rows_total[OF assms(2), of md5 conn Map.empty] by blast
  have "p \<notin> set ps" if "m l = Some ps" for l ps
    using fileByClass_rows_paths_from_files[OF m(1) that, of p] assms(1) by auto
  then show ?thesis using m by (simp add: fileByClass_media)
qed

theorem deleted_file_absent_from_mapping_witness:
  "''/r/a.png'' \<notin> set (imgPaths shrunk_fs ''/r'') \<and>
   list_all (\<lambda>f. open_rb shrunk_fs f = Inr [3]) (imgPaths shrunk_fs ''/r'') \<and>
   fileByClass (\<lambda>d. d) shrunk_fs [(''03'', ''thing''), (''01'', ''cat'')] (imgPaths shrunk_fs ''/r'') ''media''
     = Inr [''thing'' \<mapsto> [''/r/c.JPG''], ''cat'' \<mapsto> []]"
proof -
  have a: "''/r/a.png'' \<notin> set (imgPaths shrunk_fs ''/r'')"
    by (simp add: imgPaths_def shrunk_fs_def img_eval)
  have b: "list_all (\<lambda>f. open_rb shrunk_fs f = Inr [3]) (imgPaths shrunk_fs ''/r'')"
    by (simp add: imgPaths_def shrunk_fs_def img_eval open_rb_def)
  then have b': "\<forall>f\<in>set (imgPaths shrunk_fs ''/r''). isImg f \<longrightarrow> (\<exists>d. open_rb shrunk_fs f = Inr d)"
    by (auto simp: list_all_iff)
  have c: "fileByClass (\<lambda>d. d) shrunk_fs [(''03'', ''thing''), (''01'', ''cat'')] (imgPaths shrunk_fs ''/r'') ''media''
     = Inr [''thing'' \<mapsto> [''/r/c.JPG''], ''cat'' \<mapsto> []]"
    by (simp add: fileByClass_media imgPaths_def shrunk_fs_def img_eval hash_eval)
  show ?thesis
    using a b c deleted_file_absent_from_mapping[OF a b', of "\<lambda>d. d" "[(''03'', ''thing''), (''01'', ''cat'')]"]
    by simp
qed

text \<open>
  C3, as stated, fails on the last point. The store holds the one pair \<open>(01, thing)\<close>
  of a file that has been removed, and the directory is empty: the mapping returned is
  not the empty one that the store without the pair gives, it has the key \<open>thing\<close>
  with an empty list.
\<close>

theorem stale_label_stays_in_mapping:
  "''/r/a.png'' \<notin> set (rglob emptied_fs ''/r'') \<and>
   fileByClass (\<lambda>d. d) emptied_fs [(''01'', ''thing'')] (imgPaths emptied_fs ''/r'') ''media''
     = Inr [''thing'' \<mapsto> []] \<and>
   fileByClass (\<lambda>d. d) emptied_fs [] (imgPaths emptied_fs ''/r'') ''media'' = Inr Map.empty \<and>
   [''thing'' \<mapsto> ([] :: path list)] ''thing'' \<noteq> Map.empty ''thing''"
  by (simp add: fileByClass_media imgPaths_def emptied_fs_def)

text \<open>
  C1. Every stored pair whose file is present in the current traversal is resolved, in
  whatever order the store returns the pairs. The code does not do this: the lookups
  of one call share one generator, and a lookup leaves of it only what comes after its
  match. With \<open>a.png\<close> (hash 01) walked before \<open>b.png\<close> (hash 02) and the store
  returning the pair of 02 first, the lookup of 02 passes over \<open>a.png\<close>, and the
  lookup of 01 finds the generator empty. With the pairs in the other order both are
  resolved.
\<close>

theorem fileByClass_misses_present_file:
  "imgPaths later_fs ''/r'' = [''/r/a.png'', ''/r/b.png''] \<and>
   genHash (\<lambda>d. d) later_fs ''/r/a.png'' = Inr ''01'' \<and>
   genHash (\<lambda>d. d) later_fs ''/r/b.png'' = Inr ''02'' \<and>
   fileByClass (\<lambda>d. d) later_fs [(''02'', ''thing''), (''01'', ''thing'')]
       (imgPaths later_fs ''/r'') ''media''
     = Inr [''thing'' \<mapsto> [''/r/b.png'']] \<and>
   fileByClass (\<lambda>d. d) later_fs [(''01'', ''thing''), (''02'', ''thing'')]
       (imgPaths later_fs ''/r'') ''media''
     = Inr [''thing'' \<mapsto> [''/r/a.png'', ''/r/b.png'']]"
  by (simp add: fileByClass_media imgPaths_def later_fs_def img_eval hash_eval)

text \<open>
  C2. A file indexed and left untouched is resolved by the next Reconciler run. The
  code does not do this: the store holds the pair of \<open>b.png\<close> from an earlier run, the
  Indexer adds the pair of the new file \<open>a.png\<close> after it, and the Reconciler, run on
  the unchanged directory, resolves \<open>b.png\<close> only.
\<close>

theorem index_then_reconcile_misses_file:
  "processImgs (\<lambda>d. d) later_fs [(''02'', ''thing'')] (imgPaths later_fs ''/r'')
     = ([(''02'', ''thing''), (''01'', ''thing'')], None) \<and>
   fileByClass (\<lambda>d. d) later_fs
       (fst (processImgs (\<lambda>d. d) later_fs [(''02'', ''thing'')] (imgPaths later_fs ''/r'')))
       (imgPaths later_fs ''/r'') ''media''
     = Inr [''thing'' \<mapsto> [''/r/b.png'']]"
  by (simp add: fileByClass_media imgPaths_def later_fs_def img_eval hash_eval processImgs_step
      del: processImgs.simps(2))

section \<open>Query text built from values\<close>

text \<open>
  C4. The membership query on a value holding a quote character. The store holds the
  one hash \<open>0a\<close>. Asked for the hash \<^verbatim>\<open>x' OR '1'='1\<close>, which no record has,
  \<open>hashExist\<close> answers \<open>True\<close>: the value has become part of the condition. Asked for
  \<^verbatim>\<open>it's\<close>, it raises \<open>OperationalError\<close> instead of answering \<open>False\<close>.
\<close>

theorem hashExist_quote_changes_query:
  "hashExist [(''0a'', ''thing'')] (''x'' @ [sq] @ '' OR '' @ [sq] @ ''1'' @ [sq] @ ''='' @ [sq] @ ''1'')
     = Inr True \<and>
   hashExist [(''0a'', ''thing'')] (''it'' @ [sq] @ ''s'') = Inl OperationalError"
  by (simp add: hashExist_def executeQuery_def execute_exists_def parse_equality_def
      parse_operand_def condition_holds_def sq_def)

end
